theory Spec2Isabelle
  imports Complex_Main
begin

section \<open>EffectTimeline: the effectPeriods reduction\<close>

text \<open>
  The component computes
  \<^verbatim>\<open>data.effects.reduce((acc, curr, idx) => { ... return acc; }, [])\<close>.
  A period is the object \<^verbatim>\<open>{ start: idx, end: null }\<close>; its \<^verbatim>\<open>end\<close> is \<^verbatim>\<open>null\<close>
  (\<open>None\<close>) until the callback assigns an index to it.
\<close>

record period =
  start :: nat
  end' :: "nat option"

text \<open>
  JavaScript's \<^verbatim>\<open>!acc[acc.length - 1].end\<close>: the negation of the truthiness of a value
  that is \<^verbatim>\<open>null\<close> or a number. \<^verbatim>\<open>null\<close> and \<^verbatim>\<open>0\<close> are falsy, every other index is
  truthy.
\<close>

definition not_end :: "nat option \<Rightarrow> bool" where
  "not_end e = (case e of None \<Rightarrow> True | Some k \<Rightarrow> k = 0)"

text \<open>
  The callback of the reduction. \<^verbatim>\<open>acc.push(...)\<close> appends; the assignment
  \<^verbatim>\<open>acc[acc.length - 1].end = idx\<close> updates the last element in place. Both branches are
  guarded by \<^verbatim>\<open>acc.length\<close>, so \<open>last\<close> is only read on a non-empty list.
\<close>

definition callback :: "period list \<Rightarrow> bool \<Rightarrow> nat \<Rightarrow> period list" where
  "callback acc cur idx =
     (if cur \<and> (acc = [] \<or> not_end (end' (last acc)))
      then acc @ [\<lparr>start = idx, end' = None\<rparr>]
      else if \<not> cur \<and> acc \<noteq> [] \<and> not_end (end' (last acc))
      then butlast acc @ [(last acc)\<lparr>end' := Some idx\<rparr>]
      else acc)"

text \<open>
  \<^verbatim>\<open>Array.prototype.reduce\<close> with an initial value: the callback is applied to the
  elements from left to right, \<open>idx\<close> counting from the index of the first element.
\<close>

fun reduce_from :: "nat \<Rightarrow> bool list \<Rightarrow> period list \<Rightarrow> period list" where
  "reduce_from idx [] acc = acc"
| "reduce_from idx (cur # rest) acc = reduce_from (Suc idx) rest (callback acc cur idx)"

definition effectPeriods :: "bool list \<Rightarrow> period list" where
  "effectPeriods effs = reduce_from 0 effs []"

subsection \<open>The two-state machine of the specification\<close>

text \<open>
  The detector as the specification words it, for comparison with the reduction: the state is
  \<open>Outside\<close> initially; \<open>Outside \<rightarrow> InsideEffect\<close> at an index where the condition holds opens
  a segment there; \<open>InsideEffect \<rightarrow> Outside\<close> at the first index where the condition no
  longer holds closes the current segment at that index (exclusive); a segment still open
  when the series ends keeps \<open>end' = None\<close>.
\<close>

datatype detector_state = Outside | InsideEffect

fun spec_machine :: "detector_state \<Rightarrow> nat \<Rightarrow> bool list \<Rightarrow> period list \<Rightarrow> period list" where
  "spec_machine st idx [] segs = segs"
| "spec_machine Outside idx (c # cs) segs =
     (if c then spec_machine InsideEffect (Suc idx) cs (segs @ [\<lparr>start = idx, end' = None\<rparr>])
      else spec_machine Outside (Suc idx) cs segs)"
| "spec_machine InsideEffect idx (c # cs) segs =
     (if c then spec_machine InsideEffect (Suc idx) cs segs
      else spec_machine Outside (Suc idx) cs (butlast segs @ [(last segs)\<lparr>end' := Some idx\<rparr>]))"

definition spec_segments :: "bool list \<Rightarrow> period list" where
  "spec_segments effs = spec_machine Outside 0 effs []"


abbreviation open_at :: "nat \<Rightarrow> period" where
  "open_at i \<equiv> \<lparr>start = i, end' = None\<rparr>"

subsection \<open>Index ranges of segments\<close>

text \<open>
  A segment's \<open>end'\<close> is exclusive. A segment whose \<open>end'\<close> is still \<open>None\<close> when a series
  of \<open>n\<close> points ends is open-ended: the effect is ongoing, so it reaches to the end of the
  series. \<open>upper n p\<close> is the exclusive upper bound of the index range of \<open>p\<close>.
\<close>

definition upper :: "nat \<Rightarrow> period \<Rightarrow> nat" where
  "upper n p = (case end' p of None \<Rightarrow> n | Some e \<Rightarrow> e)"

definition covered :: "nat \<Rightarrow> period \<Rightarrow> nat \<Rightarrow> bool" where
  "covered n p i = (start p \<le> i \<and> i < upper n p)"

definition overlaps :: "nat \<Rightarrow> period \<Rightarrow> period \<Rightarrow> bool" where
  "overlaps n p q = (max (start p) (start q) < min (upper n p) (upper n q))"

definition closed_after_start :: "period \<Rightarrow> bool" where
  "closed_after_start p = (case end' p of None \<Rightarrow> True | Some e \<Rightarrow> start p \<le> e)"

text \<open>
  The invariant of the data model: segments are pairwise non-overlapping, ordered by
  start index, and a closed segment ends at or after its start.
\<close>

definition segments_wellformed :: "nat \<Rightarrow> period list \<Rightarrow> bool" where
  "segments_wellformed n segs =
     (sorted_wrt (\<lambda>p q. start p \<le> start q \<and> \<not> overlaps n p q) segs
      \<and> list_all closed_after_start segs)"

text \<open>
  Soundness of one segment against the series: the condition holds at every index of its
  range, and does not hold at \<open>end'\<close> when the segment is closed (the index \<open>end'\<close> must
  then exist in the series).
\<close>

definition segment_sound :: "bool list \<Rightarrow> period \<Rightarrow> bool" where
  "segment_sound effs p =
     (list_all (\<lambda>i. i < length effs \<and> effs ! i) [start p..<upper (length effs) p]
      \<and> (case end' p of None \<Rightarrow> True | Some e \<Rightarrow> e < length effs \<and> \<not> effs ! e))"

section \<open>EffectTimeline: the reduction on the object store\<close>

text \<open>
  The props of the component: \<^verbatim>\<open>data\<close> carries the series \<^verbatim>\<open>effects\<close>, \<^verbatim>\<open>dates\<close>,
  \<^verbatim>\<open>returns\<close> and \<^verbatim>\<open>thresholds\<close>.
\<close>

record timeline_data =
  effects :: "bool list"
  dates :: "string list"
  returns :: "real list"
  thresholds :: "real list"

text \<open>
  In JavaScript \<^verbatim>\<open>acc\<close> is an array of references to objects, \<^verbatim>\<open>push\<close> allocates a
  fresh object and \<^verbatim>\<open>acc[acc.length - 1].end = idx\<close> writes into the object the last
  reference points to. The store is a list of objects, a reference is a position in it,
  and allocation appends. The store the reduction starts in is whatever the rest of the
  program has allocated before.
\<close>

type_synonym ref = nat
type_synonym store = "period list"

definition callback_st :: "store \<times> ref list \<Rightarrow> bool \<Rightarrow> nat \<Rightarrow> store \<times> ref list" where
  "callback_st s cur idx =
     (case s of (h, acc) \<Rightarrow>
        if cur \<and> (acc = [] \<or> not_end (end' (h ! last acc)))
        then (h @ [\<lparr>start = idx, end' = None\<rparr>], acc @ [length h])
        else if \<not> cur \<and> acc \<noteq> [] \<and> not_end (end' (h ! last acc))
        then (h[last acc := (h ! last acc)\<lparr>end' := Some idx\<rparr>], acc)
        else (h, acc))"

fun reduce_st :: "nat \<Rightarrow> bool list \<Rightarrow> store \<times> ref list \<Rightarrow> store \<times> ref list" where
  "reduce_st idx [] s = s"
| "reduce_st idx (cur # rest) s = reduce_st (Suc idx) rest (callback_st s cur idx)"

text \<open>The periods the component goes on to render: the objects \<^verbatim>\<open>acc\<close> refers to.\<close>

definition deref :: "store \<times> ref list \<Rightarrow> period list" where
  "deref s = (case s of (h, acc) \<Rightarrow> map (nth h) acc)"

definition effectPeriods_st :: "store \<Rightarrow> timeline_data \<Rightarrow> period list" where
  "effectPeriods_st h d = deref (reduce_st 0 (effects d) (h, []))"

text \<open>
  The references of \<^verbatim>\<open>acc\<close> are distinct and point into the store: each comes from its own
  \<^verbatim>\<open>push\<close>.
\<close>

definition refs_ok :: "store \<times> ref list \<Rightarrow> bool" where
  "refs_ok s = (case s of (h, acc) \<Rightarrow> distinct acc \<and> list_all (\<lambda>a. a < length h) acc)"

section \<open>JavaScript values and objects\<close>

text \<open>
  The values the components pass around. A function value is named by the property it is
  stored under. An object is a finite map from property names to values; the spread
  \<^verbatim>\<open>{ ...o, k: v }\<close> is the map update \<open>o(k \<mapsto> v)\<close>.
\<close>

datatype jsval =
    JUndefined
  | JNull
  | JBool bool
  | JNum real
  | JStr string
  | JArr "jsval list"
  | JObj "(string \<times> jsval) list"
  | JFun string

type_synonym obj = "string \<rightharpoonup> jsval"

section \<open>analysisStore: the module-level store\<close>

text \<open>
  \<^verbatim>\<open>create((set) => ({ ... }))\<close> builds one store when the module is loaded; every
  component that imports \<^verbatim>\<open>useAnalysisStore\<close> reads and writes that one state. The
  library's \<^verbatim>\<open>set(partial)\<close> merges: the new state is
  \<^verbatim>\<open>Object.assign({}, state, partial)\<close>.
\<close>

definition set_state :: "obj \<Rightarrow> obj \<Rightarrow> obj" where
  "set_state st partial = st ++ partial"

definition store_init :: obj where
  "store_init =
     [''analysisResults'' \<mapsto> JObj [],
      ''setAnalysisResults'' \<mapsto> JFun ''setAnalysisResults'',
      ''isLoading'' \<mapsto> JBool False,
      ''setIsLoading'' \<mapsto> JFun ''setIsLoading'',
      ''error'' \<mapsto> JNull,
      ''setError'' \<mapsto> JFun ''setError'']"

definition setAnalysisResults :: "jsval \<Rightarrow> obj \<Rightarrow> obj" where
  "setAnalysisResults results st = set_state st [''analysisResults'' \<mapsto> results]"

definition setIsLoading :: "jsval \<Rightarrow> obj \<Rightarrow> obj" where
  "setIsLoading loading st = set_state st [''isLoading'' \<mapsto> loading]"

definition setError :: "jsval \<Rightarrow> obj \<Rightarrow> obj" where
  "setError error st = set_state st [''error'' \<mapsto> error]"

text \<open>
  The life of the store: the setter calls made by whichever components and requests, in
  the order they happen.
\<close>

datatype store_call = SetAnalysisResults jsval | SetIsLoading jsval | SetError jsval

fun store_step :: "obj \<Rightarrow> store_call \<Rightarrow> obj" where
  "store_step st (SetAnalysisResults results) = setAnalysisResults results st"
| "store_step st (SetIsLoading loading) = setIsLoading loading st"
| "store_step st (SetError error) = setError error st"

definition store_run :: "store_call list \<Rightarrow> obj \<Rightarrow> obj" where
  "store_run calls st = foldl store_step st calls"

text \<open>The results handed to \<^verbatim>\<open>setAnalysisResults\<close> so far, oldest first.\<close>

fun results_written :: "store_call list \<Rightarrow> jsval list" where
  "results_written [] = []"
| "results_written (SetAnalysisResults results # calls) = results # results_written calls"
| "results_written (_ # calls) = results_written calls"

definition latest_results :: "store_call list \<Rightarrow> obj \<Rightarrow> jsval option" where
  "latest_results calls st =
     (case results_written calls of
        [] \<Rightarrow> st ''analysisResults''
      | r # rs \<Rightarrow> Some (last (r # rs)))"

section \<open>DatasetSelector\<close>

text \<open>
  \<^verbatim>\<open>handleDatasetChange(e, action)\<close> with the state \<^verbatim>\<open>datasets\<close>; the second argument
  here is \<^verbatim>\<open>e.target.value\<close>, and the result is the list handed to \<^verbatim>\<open>setDatasets\<close>
  (the state is left as it is when neither branch is taken).
\<close>

definition handleDatasetChange :: "string list \<Rightarrow> string \<Rightarrow> string \<Rightarrow> string list" where
  "handleDatasetChange datasets target_value action =
     (let selectedDataset = target_value in
      if action = ''add'' then datasets @ [selectedDataset]
      else if action = ''remove'' then filter (\<lambda>d. d \<noteq> selectedDataset) datasets
      else datasets)"

text \<open>
  The remove button of a chip is rendered with \<^verbatim>\<open>onClick\<close>, \<^verbatim>\<open>className\<close> and
  \<^verbatim>\<open>aria-label\<close> only. It has no \<^verbatim>\<open>value\<close> attribute, so the \<^verbatim>\<open>value\<close> of the
  clicked element is the empty string.
\<close>

definition remove_button_value :: string where
  "remove_button_value = ''''"

definition click_remove :: "string list \<Rightarrow> string list" where
  "click_remove datasets = handleDatasetChange datasets remove_button_value ''remove''"

section \<open>Dashboard: the request to the analyze endpoint\<close>

record dashboard =
  windowSize :: real
  selectedFeatures :: "jsval list"
  selectedDataset :: string

definition dashboard_init :: dashboard where
  "dashboard_init = \<lparr>windowSize = 30, selectedFeatures = [], selectedDataset = ''''\<rparr>"

text \<open>The object literal \<^verbatim>\<open>handleAnalysis\<close> hands to \<^verbatim>\<open>JSON.stringify\<close>.\<close>

definition analyze_payload :: "dashboard \<Rightarrow> (string \<times> jsval) list" where
  "analyze_payload st =
     [(''window_size'', JNum (windowSize st)), (''features'', JArr (selectedFeatures st))]"

text \<open>
  \<^verbatim>\<open>JSON.stringify\<close> leaves out the properties whose value is \<^verbatim>\<open>undefined\<close> or a
  function; the fields of the body are the names of the others.
\<close>

fun serialised :: "jsval \<Rightarrow> bool" where
  "serialised JUndefined = False"
| "serialised (JFun f) = False"
| "serialised v = True"

definition json_fields :: "(string \<times> jsval) list \<Rightarrow> string list" where
  "json_fields ps = map fst (filter (\<lambda>p. serialised (snd p)) ps)"

definition analyze_request_fields :: "dashboard \<Rightarrow> string list" where
  "analyze_request_fields st = json_fields (analyze_payload st)"

text \<open>The six fields of the inbound request interface.\<close>

definition request_interface_fields :: "string list" where
  "request_interface_fields =
     [''assetIds'', ''startDate'', ''endDate'', ''windowSize'', ''analysisType'', ''lambda'']"

definition carries_interface_fields :: "string list \<Rightarrow> bool" where
  "carries_interface_fields names = list_all (\<lambda>f. f \<in> set names) request_interface_fields"

section \<open>AnalysisControls\<close>

definition params_init :: obj where
  "params_init =
     [''assets'' \<mapsto> JArr [],
      ''startDate'' \<mapsto> JStr '''',
      ''endDate'' \<mapsto> JStr '''',
      ''analysisType'' \<mapsto> JStr ''both'',
      ''lambda'' \<mapsto> JNum 2,
      ''windowSize'' \<mapsto> JNum 30]"

text \<open>
  The \<^verbatim>\<open>onChange\<close> handlers of the four controls, each a spread of \<^verbatim>\<open>params\<close> with the
  changed properties. Every handler stores the value it is handed as it is. The
  \<^verbatim>\<open>Slider\<close> and \<^verbatim>\<open>DateRangePicker\<close> components are not among the sources, so which values
  they hand over is left open: an event carries any value.
\<close>

datatype control_event =
    AssetsChange jsval
  | DateChange jsval jsval
  | AnalysisTypeChange jsval
  | LambdaChange jsval

fun control_step :: "obj \<Rightarrow> control_event \<Rightarrow> obj" where
  "control_step params (AssetsChange v) = params(''assets'' \<mapsto> v)"
| "control_step params (DateChange s e) = params(''startDate'' \<mapsto> s, ''endDate'' \<mapsto> e)"
| "control_step params (AnalysisTypeChange v) = params(''analysisType'' \<mapsto> v)"
| "control_step params (LambdaChange v) = params(''lambda'' \<mapsto> v)"

text \<open>
  An event whose lambda, if it carries one, is a number between the \<^verbatim>\<open>min={1.0}\<close> and
  \<^verbatim>\<open>max={3.0}\<close> the source passes to the slider.
\<close>

fun lambda_within :: "control_event \<Rightarrow> bool" where
  "lambda_within (LambdaChange (JNum x)) = (1 \<le> x \<and> x \<le> 3)"
| "lambda_within (LambdaChange v) = False"
| "lambda_within ev = True"

definition controls_run :: "control_event list \<Rightarrow> obj" where
  "controls_run evs = foldl control_step params_init evs"

text \<open>\<^verbatim>\<open>handleSubmit\<close> hands the current \<^verbatim>\<open>params\<close> to \<^verbatim>\<open>onAnalyze\<close> as they are.\<close>

definition handleSubmit :: "obj \<Rightarrow> obj" where
  "handleSubmit params = params"

section \<open>The engine of the specification\<close>

datatype engine_error =
    InvalidRequestError
  | UnknownAssetError
  | DataGapError
  | InvalidWindowError
  | InvalidParameterError

text \<open>
  Modelled from the spec: ThresholdEstimator is not among the sources.
  \<open>estimate(series, windowSize, lambda)\<close> fails with \<open>InvalidParameterError\<close> unless lambda
  lies in [1.0, 3.0]; otherwise, for each index \<open>i \<ge> windowSize - 1\<close>, the threshold is
  lambda times the rolling standard deviation of the trailing \<open>windowSize\<close> values ending
  at \<open>i\<close>, and earlier indices are not part of the output. The specification does not fix
  the dispersion estimate, which is the parameter \<open>sd\<close>.
\<close>

definition trailing :: "nat \<Rightarrow> nat \<Rightarrow> 'a list \<Rightarrow> 'a list" where
  "trailing w i xs = take w (drop (Suc i - w) xs)"

definition estimate ::
    "(real list \<Rightarrow> real) \<Rightarrow> real list \<Rightarrow> nat \<Rightarrow> real \<Rightarrow> engine_error + real list" where
  "estimate sd series w lam =
     (if lam < 1 \<or> 3 < lam then Inl InvalidParameterError
      else Inr (map (\<lambda>i. lam * sd (trailing w i series)) [w - 1..<length series]))"

text \<open>
  Modelled from the spec: RollingCorrelationEngine is not among the sources; the
  heatmap component only renders the matrix it is given. An AlignedPanel is the list of
  its rows in ascending timestamp order, each a timestamp with one return per asset.
  \<open>rollingCorrelation(panel, windowSize)\<close> fails with \<open>InvalidWindowError\<close> unless
  \<open>2 \<le> windowSize \<le> number of rows\<close>; otherwise, for each window end \<open>i\<close> from
  \<open>windowSize - 1\<close> to the last row, it yields the matrix of the sample Pearson
  correlations of every asset pair over the \<open>windowSize\<close> rows ending at \<open>i\<close>. An asset
  whose variance in the window is zero has correlation 0 with every other asset and 1
  with itself. Numbers are exact reals.
\<close>

type_synonym panel = "(nat \<times> real list) list"

definition valid_panel :: "nat \<Rightarrow> panel \<Rightarrow> bool" where
  "valid_panel n P =
     (list_all (\<lambda>r. length (snd r) = n) P \<and> sorted_wrt (<) (map fst P))"

definition n_assets :: "panel \<Rightarrow> nat" where
  "n_assets P = (case P of [] \<Rightarrow> 0 | r # _ \<Rightarrow> length (snd r))"

definition mean :: "real list \<Rightarrow> real" where
  "mean xs = sum_list xs / real (length xs)"

definition sample_cov :: "real list \<Rightarrow> real list \<Rightarrow> real" where
  "sample_cov xs ys =
     sum_list (map2 (\<lambda>x y. (x - mean xs) * (y - mean ys)) xs ys) / real (length xs - 1)"

definition sample_var :: "real list \<Rightarrow> real" where
  "sample_var xs = sample_cov xs xs"

definition pearson :: "real list \<Rightarrow> real list \<Rightarrow> real" where
  "pearson xs ys = sample_cov xs ys / (sqrt (sample_var xs) * sqrt (sample_var ys))"

definition column :: "real list list \<Rightarrow> nat \<Rightarrow> real list" where
  "column rows j = map (\<lambda>r. r ! j) rows"

definition corr_entry :: "real list list \<Rightarrow> nat \<Rightarrow> nat \<Rightarrow> real" where
  "corr_entry rows i j =
     (let x = column rows i; y = column rows j in
      if sample_var x = 0 \<or> sample_var y = 0 then (if i = j then 1 else 0)
      else pearson x y)"

definition correlation_matrix :: "nat \<Rightarrow> real list list \<Rightarrow> real list list" where
  "correlation_matrix n rows = map (\<lambda>i. map (\<lambda>j. corr_entry rows i j) [0..<n]) [0..<n]"

definition rollingCorrelation ::
    "panel \<Rightarrow> nat \<Rightarrow> engine_error + (nat \<times> real list list) list" where
  "rollingCorrelation P w =
     (if w < 2 \<or> length P < w then Inl InvalidWindowError
      else Inr (map (\<lambda>i. (fst (P ! i),
                          correlation_matrix (n_assets P) (map snd (trailing w i P))))
                 [w - 1..<length P]))"

text \<open>
  What the heatmap assumes of a matrix over \<open>n\<close> assets: square, symmetric, the diagonal
  within \<open>1e-9\<close> of 1, every value within \<open>[-1 - 1e-9, 1 + 1e-9]\<close>.
\<close>

definition matrix_ok :: "nat \<Rightarrow> real list list \<Rightarrow> bool" where
  "matrix_ok n m =
     (length m = n \<and> list_all (\<lambda>row. length row = n) m
      \<and> list_all (\<lambda>i. list_all (\<lambda>j. m ! i ! j = m ! j ! i) [0..<n]) [0..<n]
      \<and> list_all (\<lambda>i. \<bar>m ! i ! i - 1\<bar> \<le> 1 / 10 ^ 9) [0..<n]
      \<and> list_all (\<lambda>i. list_all (\<lambda>j. - 1 - 1 / 10 ^ 9 \<le> m ! i ! j
                                     \<and> m ! i ! j \<le> 1 + 1 / 10 ^ 9) [0..<n]) [0..<n])"

text \<open>
  The sum, over the rows of a window, of the products of the deviations of two columns
  from their means: the numerator of the sample covariance.
\<close>

definition dev_sum :: "('a \<Rightarrow> real) \<Rightarrow> ('a \<Rightarrow> real) \<Rightarrow> 'a list \<Rightarrow> real" where
  "dev_sum f g rs =
     sum_list (map (\<lambda>r. (f r - mean (map f rs)) * (g r - mean (map g rs))) rs)"

section \<open>Properties of the effectPeriods reduction\<close>

subsection \<open>What the reduction computes\<close>

lemma reduce_from_append:
  "reduce_from idx (xs @ ys) acc = reduce_from (idx + length xs) ys (reduce_from idx xs acc)"
  by (induction xs arbitrary: idx acc) simp_all

lemma reduce_from_closed:
  "acc \<noteq> [] \<Longrightarrow> \<not> not_end (end' (last acc)) \<Longrightarrow> reduce_from idx xs acc = acc"
  by (induction xs arbitrary: idx) (simp_all add: callback_def)

lemma reduce_from_falses: "reduce_from idx (replicate a False) [] = []"
  by (induction a arbitrary: idx) (simp_all add: callback_def)

lemma reduce_from_trues:
  "acc = [] \<or> end' (last acc) = None \<Longrightarrow>
   reduce_from idx (replicate k True) acc = acc @ map open_at [idx..<idx + k]"
proof (induction k arbitrary: idx acc)
  case 0
  then show ?case by simp
next
  case (Suc k)
  have cb: "callback acc True idx = acc @ [open_at idx]"
    using Suc.prems by (auto simp: callback_def not_end_def)
  have "reduce_from (Suc idx) (replicate k True) (acc @ [open_at idx])
        = (acc @ [open_at idx]) @ map open_at [Suc idx..<Suc idx + k]"
    by (rule Suc.IH) simp
  moreover have "[idx..<idx + Suc k] = idx # [Suc idx..<Suc idx + k]"
    by (simp add: upt_conv_Cons)
  ultimately show ?case
    by (simp only: reduce_from.simps replicate_Suc cb list.map append_assoc append.simps)
qed

lemma effectPeriods_no_effect: "effectPeriods (replicate a False) = []"
  by (simp add: effectPeriods_def reduce_from_falses)

lemma effectPeriods_open_run:
  "effectPeriods (replicate a False @ replicate k True) = map open_at [a..<a + k]"
  by (simp add: effectPeriods_def reduce_from_append reduce_from_falses reduce_from_trues)

lemma effectPeriods_closed_run:
  "effectPeriods (replicate a False @ replicate (Suc k) True @ False # rest)
     = map open_at [a..<a + k] @ [\<lparr>start = a + k, end' = Some (a + Suc k)\<rparr>]"
proof -
  let ?acc = "map open_at [a..<a + Suc k]"
  have cb: "callback ?acc False (a + Suc k)
              = map open_at [a..<a + k] @ [\<lparr>start = a + k, end' = Some (a + Suc k)\<rparr>]"
    by (simp add: callback_def not_end_def)
  have "effectPeriods (replicate a False @ replicate (Suc k) True @ False # rest)
        = reduce_from (Suc (a + Suc k)) rest (callback ?acc False (a + Suc k))"
    by (simp add: effectPeriods_def reduce_from_append reduce_from_falses reduce_from_trues
          del: replicate.simps upt_Suc)
  also have "\<dots> = map open_at [a..<a + k] @ [\<lparr>start = a + k, end' = Some (a + Suc k)\<rparr>]"
    unfolding cb by (rule reduce_from_closed) (simp_all add: not_end_def)
  finally show ?thesis .
qed

lemma effects_shape:
  fixes effs :: "bool list"
  obtains (none) a where "effs = replicate a False"
  | (open_run) a k where "effs = replicate a False @ replicate (Suc k) True"
  | (closed_run) a k rest where "effs = replicate a False @ replicate (Suc k) True @ False # rest"
proof -
  define pre where "pre = takeWhile Not effs"
  define post where "post = dropWhile Not effs"
  define run where "run = takeWhile id post"
  define tl' where "tl' = dropWhile id post"
  have e: "effs = pre @ run @ tl'" by (simp add: pre_def post_def run_def tl'_def)
  have "pre = replicate (length pre) False"
    unfolding pre_def by (induction effs) auto
  then obtain a where pre: "pre = replicate a False" ..
  have run: "run = replicate (length run) True"
    unfolding run_def by (induction post) auto
  show thesis
  proof (cases post)
    case Nil
    then have "effs = replicate a False"
      using e pre by (simp add: run_def tl'_def)
    then show thesis by (rule none)
  next
    case (Cons c cs)
    have "c" using Cons hd_dropWhile [of Not effs] by (auto simp: post_def)
    then have "run \<noteq> []" using Cons by (simp add: run_def)
    then obtain k where "length run = Suc k" by (cases run) auto
    with run have k: "run = replicate (Suc k) True" by simp
    show thesis
    proof (cases tl')
      case Nil
      then have "effs = replicate a False @ replicate (Suc k) True"
        using e pre k by simp
      then show thesis by (rule open_run)
    next
      case (Cons d ds)
      have "\<not> d" using Cons hd_dropWhile [of id post] by (auto simp: tl'_def)
      then have "effs = replicate a False @ replicate (Suc k) True @ False # ds"
        using e pre k Cons by simp
      then show thesis by (rule closed_run)
    qed
  qed
qed


subsection \<open>What does hold of the periods\<close>

text \<open>The start indices ascend strictly.\<close>

lemma effectPeriods_starts_ascending:
  "sorted_wrt (<) (map start (effectPeriods effs))"
proof (cases effs rule: effects_shape)
  case (none a)
  then show ?thesis by (simp add: effectPeriods_no_effect)
next
  case (open_run a k)
  have "map start (map open_at [a..<a + Suc k]) = [a..<a + Suc k]"
    by (simp add: comp_def del: upt_Suc)
  then show ?thesis
    unfolding open_run effectPeriods_open_run by (simp del: upt_Suc map_map)
next
  case (closed_run a k rest)
  have "map start (map open_at [a..<a + k] @ [\<lparr>start = a + k, end' = Some (a + Suc k)\<rparr>])
          = [a..<a + Suc k]"
    by (simp add: comp_def)
  then show ?thesis
    unfolding closed_run effectPeriods_closed_run by (simp del: upt_Suc map_map map_append)
qed

lemma effectPeriods_closed_after_start:
  "list_all closed_after_start (effectPeriods effs)"
proof (cases effs rule: effects_shape)
  case (none a)
  then show ?thesis by (simp add: effectPeriods_no_effect)
next
  case (open_run a k)
  show ?thesis
    unfolding open_run effectPeriods_open_run
    by (simp add: list_all_iff closed_after_start_def del: upt_Suc)
next
  case (closed_run a k rest)
  show ?thesis
    unfolding closed_run effectPeriods_closed_run
    by (simp add: list_all_iff closed_after_start_def)
qed

text \<open>Every period starts at an index where the condition holds.\<close>

lemma effectPeriods_start_true:
  "list_all (\<lambda>p. start p < length effs \<and> effs ! start p) (effectPeriods effs)"
proof (cases effs rule: effects_shape)
  case (none a)
  then show ?thesis by (simp add: effectPeriods_no_effect)
next
  case (open_run a k)
  show ?thesis
    unfolding open_run effectPeriods_open_run
    by (auto simp: list_all_iff nth_append simp del: upt_Suc replicate.simps)
next
  case (closed_run a k rest)
  have "\<And>i. a \<le> i \<Longrightarrow> i \<le> a + k \<Longrightarrow>
     (replicate a False @ replicate (Suc k) True @ False # rest) ! i"
    by (simp add: nth_append del: replicate.simps)
  then show ?thesis
    unfolding closed_run effectPeriods_closed_run
    by (auto simp: list_all_iff simp del: replicate.simps)
qed

text \<open>
  A closed period is one index long, and the condition does not hold at its end.
\<close>

lemma effectPeriods_closed_period:
  "list_all (\<lambda>p. case end' p of None \<Rightarrow> True
       | Some e \<Rightarrow> e = Suc (start p) \<and> e < length effs \<and> \<not> effs ! e)
     (effectPeriods effs)"
proof (cases effs rule: effects_shape)
  case (none a)
  then show ?thesis by (simp add: effectPeriods_no_effect)
next
  case (open_run a k)
  show ?thesis
    unfolding open_run effectPeriods_open_run
    by (simp add: list_all_iff del: upt_Suc replicate.simps)
next
  case (closed_run a k rest)
  have "\<not> (replicate a False @ replicate (Suc k) True @ False # rest) ! (Suc (a + k))"
    by (simp add: nth_append del: replicate.simps)
  then show ?thesis
    unfolding closed_run effectPeriods_closed_run
    by (simp add: list_all_iff del: replicate.simps)
qed

subsection \<open>The reduction against the specified detector\<close>

lemma overlaps_iff: "overlaps n p q \<longleftrightarrow> (\<exists>i. covered n p i \<and> covered n q i)"
proof
  assume "overlaps n p q"
  then have "covered n p (max (start p) (start q)) \<and> covered n q (max (start p) (start q))"
    by (simp add: overlaps_def covered_def)
  then show "\<exists>i. covered n p i \<and> covered n q i" ..
next
  assume "\<exists>i. covered n p i \<and> covered n q i"
  then show "overlaps n p q"
    by (auto simp: overlaps_def covered_def)
qed

text \<open>The machine of the specification on a series with three runs, the last one open.\<close>

lemma spec_segments_three_runs:
  "spec_segments [False, True, True, True, False, True, False, True]
     = [\<lparr>start = 1, end' = Some 4\<rparr>, \<lparr>start = 5, end' = Some 6\<rparr>, open_at 7]"
  by (simp add: spec_segments_def)

text \<open>
  C1. The reduction is meant to produce the segments of the two-state machine, one per
  maximal run of true values. It does not. On the series true, true the machine opens one
  segment at index 0, while the reduction pushes a period at every index of the run; on
  the series true, false, true the machine finds two runs, while the reduction pushes
  nothing once a period is closed.
\<close>

theorem effectPeriods_differs_from_spec_machine:
  "effectPeriods [True, True] = [open_at 0, open_at 1]
   \<and> spec_segments [True, True] = [open_at 0]
   \<and> effectPeriods [True, True] \<noteq> spec_segments [True, True]
   \<and> effectPeriods [True, False, True] = [\<lparr>start = 0, end' = Some 1\<rparr>]
   \<and> spec_segments [True, False, True] = [\<lparr>start = 0, end' = Some 1\<rparr>, open_at 2]"
  by (simp add: effectPeriods_def spec_segments_def callback_def not_end_def)

text \<open>
  C2. The segments are meant to be pairwise non-overlapping in index range, ordered by
  ascending start index, with every closed segment ending at or after its start. The
  ordering and the closing bound hold (\<open>effectPeriods_starts_ascending\<close>,
  \<open>effectPeriods_closed_after_start\<close>), the non-overlap does not: on the series true, true
  the reduction returns two open periods, from 0 and from 1, and both cover index 1.
\<close>

theorem effectPeriods_overlapping_periods:
  "effectPeriods [True, True] = [open_at 0, open_at 1]
   \<and> overlaps 2 (open_at 0) (open_at 1)
   \<and> \<not> segments_wellformed 2 (effectPeriods [True, True])"
  by (simp add: effectPeriods_def callback_def not_end_def segments_wellformed_def
        overlaps_def upper_def)

text \<open>
  C3. Every index of a segment's range is meant to have the condition true, and the index
  \<open>end'\<close> of a closed segment to have it false. This holds of the closed period
  (\<open>effectPeriods_closed_period\<close>) and of every start index
  (\<open>effectPeriods_start_true\<close>), but not of the open periods the reduction leaves behind: on
  the series true, true, false the period opened at 0 is never closed, and its range
  reaches index 2, where the condition is false.
\<close>

theorem effectPeriods_open_period_covers_false:
  "effectPeriods [True, True, False] = [open_at 0, \<lparr>start = 1, end' = Some 2\<rparr>]
   \<and> covered 3 (open_at 0) 2 \<and> \<not> [True, True, False] ! 2
   \<and> \<not> segment_sound [True, True, False] (open_at 0)
   \<and> \<not> list_all (segment_sound [True, True, False]) (effectPeriods [True, True, False])"
  by (simp add: effectPeriods_def callback_def not_end_def segment_sound_def covered_def
        upper_def upt_rec [of 0] upt_rec [of 1] upt_rec [of 2])

section \<open>Properties of the reduction on the object store\<close>

text \<open>Writing through the last reference changes the last object only.\<close>

lemma deref_update_last:
  assumes "distinct acc" "acc \<noteq> []" "list_all (\<lambda>a. a < length h) acc"
  shows "map (nth (h[last acc := v])) acc = butlast (map (nth h) acc) @ [v]"
proof -
  obtain bs b where acc: "acc = bs @ [b]"
    using assms(2) by (metis append_butlast_last_id)
  have "b \<notin> set bs" using assms(1) acc by simp
  then have "map (nth (h[b := v])) bs = map (nth h) bs"
    by (induction bs) auto
  moreover have "b < length h" using assms(3) acc by simp
  ultimately show ?thesis by (simp add: acc)
qed

lemma callback_st_refines:
  assumes "refs_ok s"
  shows "refs_ok (callback_st s cur idx) \<and> deref (callback_st s cur idx) = callback (deref s) cur idx"
proof -
  obtain h acc where s: "s = (h, acc)" by (cases s)
  define ps where "ps = map (nth h) acc"
  define push where "push \<longleftrightarrow> cur \<and> (acc = [] \<or> not_end (end' (h ! last acc)))"
  define close where "close \<longleftrightarrow> \<not> cur \<and> acc \<noteq> [] \<and> not_end (end' (h ! last acc))"
  have d: "distinct acc" and r: "list_all (\<lambda>a. a < length h) acc"
    using assms by (simp_all add: s refs_ok_def)
  have pure: "callback ps cur idx =
      (if push then ps @ [\<lparr>start = idx, end' = None\<rparr>]
       else if close then butlast ps @ [(h ! last acc)\<lparr>end' := Some idx\<rparr>]
       else ps)"
    by (cases "acc = []") (simp_all add: callback_def ps_def push_def close_def last_map)
  have stored: "callback_st s cur idx =
      (if push then (h @ [\<lparr>start = idx, end' = None\<rparr>], acc @ [length h])
       else if close then (h[last acc := (h ! last acc)\<lparr>end' := Some idx\<rparr>], acc)
       else (h, acc))"
    by (simp add: s callback_st_def push_def close_def)
  have ds: "deref s = ps" by (simp add: s deref_def ps_def)
  have dr: "deref (x, y) = map (nth x) y" for x y by (simp add: deref_def)
  show ?thesis
  proof (cases push)
    case True
    have "length h \<notin> set acc" using r by (auto simp: list_all_iff)
    moreover have "map (nth (h @ [p])) acc = ps" for p
      using r by (auto simp: list_all_iff nth_append ps_def)
    moreover have "list_all (\<lambda>a. a < Suc (length h)) acc"
      using r by (auto simp: list_all_iff)
    ultimately show ?thesis
      using True d by (simp add: stored pure ds dr refs_ok_def)
  next
    case False
    show ?thesis
    proof (cases close)
      case True
      then have ne: "acc \<noteq> []" by (simp add: close_def)
      have "map (nth (h[last acc := (h ! last acc)\<lparr>end' := Some idx\<rparr>])) acc
            = butlast ps @ [(h ! last acc)\<lparr>end' := Some idx\<rparr>]"
        unfolding ps_def using d ne r by (rule deref_update_last)
      then show ?thesis
        using True False d r by (simp add: stored pure ds dr refs_ok_def)
    next
      case nc: False
      show ?thesis
        using nc False d r by (simp add: stored pure ds dr refs_ok_def) (simp add: ps_def)
    qed
  qed
qed

lemma reduce_st_refines:
  "refs_ok s \<Longrightarrow> deref (reduce_st idx effs s) = reduce_from idx effs (deref s)"
proof (induction effs arbitrary: idx s)
  case Nil
  then show ?case by simp
next
  case (Cons c cs)
  from callback_st_refines [OF Cons.prems, of c idx]
  have ok: "refs_ok (callback_st s c idx)"
    and eq: "deref (callback_st s c idx) = callback (deref s) c idx" by simp_all
  show ?case by (simp add: Cons.IH [OF ok] eq)
qed

text \<open>Whatever the store holds beforehand, the reduction yields the periods of \<open>effectPeriods\<close>.\<close>

lemma effectPeriods_st_pure: "effectPeriods_st h d = effectPeriods (effects d)"
proof -
  have "refs_ok (h, [])" by (simp add: refs_ok_def)
  then have "deref (reduce_st 0 (effects d) (h, [])) = reduce_from 0 (effects d) (deref (h, []))"
    by (rule reduce_st_refines)
  moreover have "deref (h, []) = []" by (simp add: deref_def)
  ultimately show ?thesis
    by (simp add: effectPeriods_st_def effectPeriods_def)
qed

text \<open>
  C6. Effect detection is deterministic: two runs of the segment computation of
  EffectTimeline on inputs with identical effects, returns and thresholds yield identical
  segment lists, whatever the object store each run starts in and whatever the other
  props are.
\<close>

theorem effectPeriods_deterministic:
  assumes "effects d = effects d'" and "returns d = returns d'"
    and "thresholds d = thresholds d'"
  shows "effectPeriods_st h d = effectPeriods_st h' d'"
  using assms(1) by (simp add: effectPeriods_st_pure)

theorem effectPeriods_deterministic_witness:
  "effectPeriods_st []
      \<lparr>effects = [False, True, False], dates = [''d1'', ''d2'', ''d3''],
       returns = [0, 5, 0], thresholds = [1, 1, 1]\<rparr>
   = effectPeriods_st [\<lparr>start = 7, end' = None\<rparr>]
      \<lparr>effects = [False, True, False], dates = [],
       returns = [0, 5, 0], thresholds = [1, 1, 1]\<rparr>"
  using effectPeriods_deterministic
    [of "\<lparr>effects = [False, True, False], dates = [''d1'', ''d2'', ''d3''],
          returns = [0, 5, 0], thresholds = [1, 1, 1]\<rparr>"
        "\<lparr>effects = [False, True, False], dates = [],
          returns = [0, 5, 0], thresholds = [1, 1, 1]\<rparr>"
        "[]" "[\<lparr>start = 7, end' = None\<rparr>]"]
  by simp

section \<open>Properties of the analysis store\<close>

text \<open>
  C10. Each setter of the analysis store modifies only its own field: whatever the state
  was, \<open>setIsLoading\<close> changes only \<open>isLoading\<close>, \<open>setError\<close> only \<open>error\<close> and
  \<open>setAnalysisResults\<close> only \<open>analysisResults\<close>; every other property of the state,
  the other two fields among them, is what it was, and the setter's own field holds the
  argument.
\<close>

theorem setters_frame:
  "(k \<noteq> ''isLoading'' \<longrightarrow> setIsLoading loading st k = st k)
   \<and> (k \<noteq> ''error'' \<longrightarrow> setError error st k = st k)
   \<and> (k \<noteq> ''analysisResults'' \<longrightarrow> setAnalysisResults results st k = st k)
   \<and> setIsLoading loading st ''isLoading'' = Some loading
   \<and> setError error st ''error'' = Some error
   \<and> setAnalysisResults results st ''analysisResults'' = Some results"
  by (simp add: setIsLoading_def setError_def setAnalysisResults_def set_state_def)

text \<open>The three setters on the initial state of the store.\<close>

theorem setters_frame_witness:
  "setIsLoading (JBool True) store_init ''error'' = Some JNull
   \<and> setIsLoading (JBool True) store_init ''analysisResults'' = Some (JObj [])
   \<and> setError (JStr ''failed'') store_init ''isLoading'' = Some (JBool False)
   \<and> setError (JStr ''failed'') store_init ''analysisResults'' = Some (JObj [])
   \<and> setAnalysisResults (JStr ''r'') store_init ''isLoading'' = Some (JBool False)
   \<and> setAnalysisResults (JStr ''r'') store_init ''error'' = Some JNull"
  using setters_frame [of "''error''" "JBool True" store_init "JStr ''failed''" "JStr ''r''"]
    setters_frame [of "''analysisResults''" "JBool True" store_init "JStr ''failed''" "JStr ''r''"]
    setters_frame [of "''isLoading''" "JBool True" store_init "JStr ''failed''" "JStr ''r''"]
  by (simp add: store_init_def)

lemma store_step_results:
  "store_step st c ''analysisResults'' =
     (case c of SetAnalysisResults r \<Rightarrow> Some r | _ \<Rightarrow> st ''analysisResults'')"
  by (cases c)
    (simp_all add: setIsLoading_def setError_def setAnalysisResults_def set_state_def)

lemma store_run_Cons: "store_run (c # calls) st = store_run calls (store_step st c)"
  by (simp add: store_run_def)

text \<open>
  The claim that no module-level store holds analysis results across requests does not
  hold of the code: the result written to the store during one request is still what the
  store returns after the next request has begun.
\<close>

theorem store_shares_results_across_requests:
  "store_run [SetIsLoading (JBool True), SetAnalysisResults (JStr ''result of request 1''),
              SetIsLoading (JBool False), SetIsLoading (JBool True)] store_init
     ''analysisResults'' = Some (JStr ''result of request 1'')
   \<and> store_init ''analysisResults'' = Some (JObj [])"
  by (simp add: store_run_def store_init_def setIsLoading_def setError_def
        setAnalysisResults_def set_state_def)

text \<open>
  C5, amended. Analysis results are held in the one module-level store: after any setter
  calls, by whichever components and requests, \<open>analysisResults\<close> is the argument of the
  latest \<open>setAnalysisResults\<close> call, and the value it had before if there was none.
\<close>

theorem store_holds_latest_results:
  "store_run calls st ''analysisResults'' = latest_results calls st"
proof (induction calls arbitrary: st)
  case Nil
  show ?case by (simp add: store_run_def latest_results_def)
next
  case (Cons c calls)
  note run = store_run_Cons
  show ?case
  proof (cases c)
    case (SetAnalysisResults r)
    then show ?thesis
      using Cons.IH [of "store_step st c"] store_step_results [of st c]
      by (simp add: run latest_results_def split: list.splits)
  next
    case (SetIsLoading l)
    then show ?thesis
      using Cons.IH [of "store_step st c"] store_step_results [of st c]
      by (simp add: run latest_results_def split: list.splits)
  next
    case (SetError e)
    then show ?thesis
      using Cons.IH [of "store_step st c"] store_step_results [of st c]
      by (simp add: run latest_results_def split: list.splits)
  qed
qed

section \<open>Properties of DatasetSelector\<close>

text \<open>Whatever the list, a click on a remove button drops the empty names and nothing else.\<close>

lemma click_remove_filter: "click_remove datasets = filter (\<lambda>d. d \<noteq> '''') datasets"
  by (simp add: click_remove_def handleDatasetChange_def remove_button_value_def)

text \<open>
  C9. The remove action filters the dataset list by the value of the clicked button, the
  empty string; so for every dataset list with no empty-string entry, clicking a chip's
  remove button leaves the list unchanged.
\<close>

theorem click_remove_unchanged:
  "'''' \<notin> set datasets \<Longrightarrow> click_remove datasets = datasets"
proof -
  assume "'''' \<notin> set datasets"
  then have "filter (\<lambda>d. d \<noteq> '''') datasets = datasets"
    by (induction datasets) auto
  then show ?thesis
    by (simp add: click_remove_def handleDatasetChange_def remove_button_value_def)
qed

theorem click_remove_unchanged_witness:
  "'''' \<notin> set [''prices'', ''returns''] \<and> click_remove [''prices'', ''returns''] = [''prices'', ''returns'']"
  using click_remove_unchanged [of "[''prices'', ''returns'']"] by simp

section \<open>Properties of the requests the UI assembles\<close>

lemma analyze_request_fields_eq: "analyze_request_fields st = [''window_size'', ''features'']"
  by (simp add: analyze_request_fields_def json_fields_def analyze_payload_def)

text \<open>
  The request the Dashboard sends from its initial state carries the fields
  \<open>window_size\<close> and \<open>features\<close>, and so not the six of the request interface.
\<close>

theorem analyze_request_lacks_interface_fields:
  "analyze_request_fields dashboard_init = [''window_size'', ''features'']
   \<and> \<not> carries_interface_fields (analyze_request_fields dashboard_init)"
  by (simp add: analyze_request_fields_eq carries_interface_fields_def request_interface_fields_def)

lemma control_step_dom:
  "dom params = {''assets'', ''startDate'', ''endDate'', ''analysisType'', ''lambda'', ''windowSize''}
   \<Longrightarrow> dom (control_step params ev) = dom params"
  by (cases ev) auto

lemma controls_run_snoc: "controls_run (evs @ [ev]) = control_step (controls_run evs) ev"
  by (simp add: controls_run_def)

lemma controls_run_dom:
  "dom (controls_run evs) =
     {''assets'', ''startDate'', ''endDate'', ''analysisType'', ''lambda'', ''windowSize''}"
proof (induction evs rule: rev_induct)
  case Nil
  have "dom params_init =
      insert ''windowSize'' (insert ''lambda'' (insert ''analysisType'' (insert ''endDate''
        (insert ''startDate'' (insert ''assets'' {})))))"
    unfolding params_init_def by (simp only: dom_fun_upd dom_empty option.distinct if_False)
  then show ?case by (auto simp: controls_run_def)
next
  case (snoc ev evs)
  have "controls_run (evs @ [ev]) = control_step (controls_run evs) ev"
    by (simp add: controls_run_def)
  then show ?case using control_step_dom [OF snoc.IH, of ev] snoc.IH by simp
qed

text \<open>
  C4, amended. Every analysis request sent to the analyze endpoint carries exactly the two
  fields \<open>window_size\<close>, the window size of the Dashboard, and \<open>features\<close>, its selected
  features, in every state of the Dashboard. The six parameters are the properties
  \<open>assets\<close>, \<open>startDate\<close>, \<open>endDate\<close>, \<open>analysisType\<close>, \<open>lambda\<close> and \<open>windowSize\<close> of the
  object AnalysisControls hands to \<open>onAnalyze\<close>, in every state its controls can be in.
\<close>

theorem analyze_request_two_fields:
  "analyze_request_fields st = [''window_size'', ''features'']
   \<and> map_of (analyze_payload st) ''window_size'' = Some (JNum (windowSize st))
   \<and> map_of (analyze_payload st) ''features'' = Some (JArr (selectedFeatures st))
   \<and> dom (handleSubmit (controls_run evs)) =
       {''assets'', ''startDate'', ''endDate'', ''analysisType'', ''lambda'', ''windowSize''}"
  by (simp add: analyze_request_fields_eq controls_run_dom handleSubmit_def analyze_payload_def)

text \<open>
  The lambda handler stores what the slider hands over, and no other handler touches
  lambda.
\<close>

lemma control_step_lambda:
  "control_step params ev ''lambda'' =
     (case ev of LambdaChange v \<Rightarrow> Some v | _ \<Rightarrow> params ''lambda'')"
  by (cases ev) simp_all

lemma controls_run_default_lambda: "handleSubmit (controls_run []) ''lambda'' = Some (JNum 2)"
  by (simp add: handleSubmit_def controls_run_def params_init_def)

lemma estimate_accepts: "1 \<le> lam \<Longrightarrow> lam \<le> 3 \<Longrightarrow> \<exists>t. estimate sd series w lam = Inr t"
  by (simp add: estimate_def)

text \<open>
  The controls themselves do not bound lambda: a value beyond \<^verbatim>\<open>max\<close>, if the slider hands
  one over, reaches submit as it is, and ThresholdEstimator rejects it.
\<close>

lemma controls_store_any_lambda:
  "handleSubmit (controls_run [LambdaChange (JNum (7 / 2))]) ''lambda'' = Some (JNum (7 / 2))
   \<and> estimate sd series w (7 / 2) = Inl InvalidParameterError"
  by (simp add: handleSubmit_def controls_run_def estimate_def)

text \<open>
  Provided every value the slider hands over is a number within its \<^verbatim>\<open>min\<close> and \<^verbatim>\<open>max\<close>,
  the lambda handed over on submit lies in [1.0, 3.0], from the default 2.0 on, and
  ThresholdEstimator does not fail on it with \<open>InvalidParameterError\<close>.
\<close>

lemma controls_run_lambda_within:
  "list_all lambda_within evs \<Longrightarrow>
   \<exists>v. controls_run evs ''lambda'' = Some (JNum v) \<and> 1 \<le> v \<and> v \<le> 3"
proof (induction evs rule: rev_induct)
  case Nil
  show ?case by (simp add: controls_run_def params_init_def)
next
  case (snoc ev evs)
  then have IH: "\<exists>v. controls_run evs ''lambda'' = Some (JNum v) \<and> 1 \<le> v \<and> v \<le> 3"
    and ev: "lambda_within ev" by simp_all
  show ?case
  proof (cases ev)
    case (LambdaChange u)
    with ev obtain x where "u = JNum x" "1 \<le> x" "x \<le> 3"
      by (cases u) simp_all
    then show ?thesis by (simp add: controls_run_snoc LambdaChange)
  qed (use IH in \<open>simp_all add: controls_run_snoc\<close>)
qed

lemma controls_lambda_accepted:
  assumes "list_all lambda_within evs"
  shows "\<exists>v. handleSubmit (controls_run evs) ''lambda'' = Some (JNum v) \<and> 1 \<le> v \<and> v \<le> 3
           \<and> estimate sd series w v \<noteq> Inl InvalidParameterError"
proof -
  obtain v where v: "controls_run evs ''lambda'' = Some (JNum v)" "1 \<le> v" "v \<le> 3"
    using controls_run_lambda_within [OF assms] by blast
  then have "estimate sd series w v \<noteq> Inl InvalidParameterError"
    using estimate_accepts [of v sd series w] by auto
  with v show ?thesis by (auto simp: handleSubmit_def)
qed

section \<open>Properties of the correlation matrices\<close>

subsection \<open>Sums of products\<close>

lemma sum_list_squares_nonneg: "0 \<le> sum_list (map (\<lambda>r. (f r)\<^sup>2) rs)" for f :: "'a \<Rightarrow> real"
  by (rule sum_list_nonneg) auto

lemma sum_list_squares_zero:
  fixes f :: "'a \<Rightarrow> real"
  assumes "sum_list (map (\<lambda>r. (f r)\<^sup>2) rs) = 0"
  shows "sum_list (map (\<lambda>r. g r * f r) rs) = 0"
proof -
  have "\<forall>x \<in> set (map (\<lambda>r. (f r)\<^sup>2) rs). x = 0"
    using assms by (subst (asm) sum_list_nonneg_eq_0_iff) auto
  then have "\<And>r. r \<in> set rs \<Longrightarrow> f r = 0" by auto
  then have "map (\<lambda>r. g r * f r) rs = map (\<lambda>r. 0) rs" by (intro map_cong) auto
  then have "sum_list (map (\<lambda>r. g r * f r) rs) = sum_list (map (\<lambda>r. 0::real) rs)"
    by (rule arg_cong)
  also have "\<dots> = 0" by simp
  finally show ?thesis .
qed

lemma products_bound:
  fixes a b :: "'a \<Rightarrow> real"
  shows "(sum_list (map (\<lambda>r. a r * b r) rs))\<^sup>2
           \<le> sum_list (map (\<lambda>r. (a r)\<^sup>2) rs) * sum_list (map (\<lambda>r. (b r)\<^sup>2) rs)"
proof -
  define A where "A = sum_list (map (\<lambda>r. (a r)\<^sup>2) rs)"
  define B where "B = sum_list (map (\<lambda>r. (b r)\<^sup>2) rs)"
  define C where "C = sum_list (map (\<lambda>r. a r * b r) rs)"
  have B0: "0 \<le> B" unfolding B_def by (rule sum_list_squares_nonneg)
  show ?thesis
  proof (cases "B = 0")
    case True
    then have "C = 0" unfolding B_def C_def by (rule sum_list_squares_zero)
    then show ?thesis using True by (simp add: A_def B_def C_def)
  next
    case False
    then have Bpos: "0 < B" using B0 by simp
    have "(\<lambda>r. (B * a r - C * b r)\<^sup>2)
            = (\<lambda>r. (B\<^sup>2 * (a r)\<^sup>2 - 2 * B * C * (a r * b r)) + C\<^sup>2 * (b r)\<^sup>2)"
      by (rule ext) (simp add: power2_eq_square algebra_simps)
    then have "sum_list (map (\<lambda>r. (B * a r - C * b r)\<^sup>2) rs)
                 = B\<^sup>2 * A - 2 * B * C * C + C\<^sup>2 * B"
      by (simp only: sum_list_addf sum_list_subtractf sum_list_const_mult A_def B_def C_def)
    moreover have "0 \<le> sum_list (map (\<lambda>r. (B * a r - C * b r)\<^sup>2) rs)"
      by (rule sum_list_squares_nonneg)
    ultimately have "0 \<le> B * (A * B - C\<^sup>2)"
      by (simp add: power2_eq_square algebra_simps)
    then have "0 \<le> A * B - C\<^sup>2"
      using Bpos by (simp add: zero_le_mult_iff)
    then show ?thesis by (simp add: A_def B_def C_def)
  qed
qed

subsection \<open>Covariance of two columns\<close>

lemma sample_cov_maps:
  "sample_cov (map f rs) (map g rs) = dev_sum f g rs / real (length rs - 1)"
proof -
  have "zip (map f rs) (map g rs) = map (\<lambda>r. (f r, g r)) rs"
    by (simp add: zip_map_map zip_same_conv_map)
  then show ?thesis
    by (simp add: sample_cov_def dev_sum_def comp_def)
qed

lemma dev_sum_commute: "dev_sum f g rs = dev_sum g f rs"
  by (simp add: dev_sum_def mult.commute)

lemma dev_sum_self: "dev_sum f f rs = sum_list (map (\<lambda>r. (f r - mean (map f rs))\<^sup>2) rs)"
  by (simp add: dev_sum_def power2_eq_square)

lemma dev_sum_self_nonneg: "0 \<le> dev_sum f f rs"
  unfolding dev_sum_self by (rule sum_list_squares_nonneg)

lemma dev_sum_bound: "(dev_sum f g rs)\<^sup>2 \<le> dev_sum f f rs * dev_sum g g rs"
  unfolding dev_sum_self unfolding dev_sum_def by (rule products_bound)


subsection \<open>One entry of the matrix\<close>

lemma corr_entry_columns:
  "corr_entry rows i j =
     (if dev_sum (\<lambda>r. r ! i) (\<lambda>r. r ! i) rows / real (length rows - 1) = 0
         \<or> dev_sum (\<lambda>r. r ! j) (\<lambda>r. r ! j) rows / real (length rows - 1) = 0
      then (if i = j then 1 else 0)
      else (dev_sum (\<lambda>r. r ! i) (\<lambda>r. r ! j) rows / real (length rows - 1))
           / (sqrt (dev_sum (\<lambda>r. r ! i) (\<lambda>r. r ! i) rows / real (length rows - 1))
              * sqrt (dev_sum (\<lambda>r. r ! j) (\<lambda>r. r ! j) rows / real (length rows - 1))))"
  by (simp add: corr_entry_def column_def pearson_def sample_var_def sample_cov_maps Let_def)

lemma corr_entry_sym: "corr_entry rows i j = corr_entry rows j i"
proof -
  have c: "dev_sum (\<lambda>r. r ! j) (\<lambda>r. r ! i) rows = dev_sum (\<lambda>r. r ! i) (\<lambda>r. r ! j) rows"
    by (rule dev_sum_commute)
  show ?thesis
    unfolding corr_entry_columns [of rows i j] corr_entry_columns [of rows j i] c
    by (auto simp: mult.commute)
qed

lemma ratio_bound:
  fixes A B C d :: real
  assumes "C\<^sup>2 \<le> A * B" "0 \<le> A" "0 \<le> B" "0 \<le> d"
  shows "\<bar>(C / d) / (sqrt (A / d) * sqrt (B / d))\<bar> \<le> 1"
proof (cases "d = 0 \<or> A = 0 \<or> B = 0")
  case True
  then show ?thesis by auto
next
  case False
  then have d: "0 < d" and A: "0 < A" and B: "0 < B" using assms by auto
  have "sqrt (A / d) * sqrt (B / d) = sqrt (A * B) / d"
    using d by (simp add: real_sqrt_divide real_sqrt_mult)
  then have eq: "(C / d) / (sqrt (A / d) * sqrt (B / d)) = C / sqrt (A * B)"
    using d by simp
  have "\<bar>C\<bar> \<le> sqrt (A * B)"
    using assms(1) by (metis real_sqrt_abs real_sqrt_le_iff)
  moreover have "0 < sqrt (A * B)" using A B by simp
  ultimately show ?thesis unfolding eq by (simp add: abs_divide)
qed

lemma corr_entry_range: "\<bar>corr_entry rows i j\<bar> \<le> 1"
proof -
  let ?d = "real (length rows - 1)"
  let ?Vi = "dev_sum (\<lambda>r. r ! i) (\<lambda>r. r ! i) rows / ?d"
  let ?Vj = "dev_sum (\<lambda>r. r ! j) (\<lambda>r. r ! j) rows / ?d"
  let ?C = "dev_sum (\<lambda>r. r ! i) (\<lambda>r. r ! j) rows / ?d"
  have ce: "corr_entry rows i j =
      (if ?Vi = 0 \<or> ?Vj = 0 then (if i = j then 1 else 0) else ?C / (sqrt ?Vi * sqrt ?Vj))"
    by (rule corr_entry_columns)
  have b: "\<bar>?C / (sqrt ?Vi * sqrt ?Vj)\<bar> \<le> 1"
    by (rule ratio_bound) (simp_all add: dev_sum_bound dev_sum_self_nonneg)
  show ?thesis
  proof (cases "?Vi = 0 \<or> ?Vj = 0")
    case True
    then have "corr_entry rows i j = (if i = j then 1 else 0)"
      by (simp only: ce if_True)
    then show ?thesis by simp
  next
    case False
    then have "corr_entry rows i j = ?C / (sqrt ?Vi * sqrt ?Vj)"
      by (simp only: ce if_False)
    then show ?thesis using b by (simp only:)
  qed
qed

lemma corr_entry_diag: "corr_entry rows i i = 1"
proof -
  define V where "V = dev_sum (\<lambda>r. r ! i) (\<lambda>r. r ! i) rows / real (length rows - 1)"
  have "0 \<le> V" unfolding V_def by (simp add: dev_sum_self_nonneg)
  then have "V \<noteq> 0 \<Longrightarrow> V / (sqrt V * sqrt V) = 1" by simp
  then show ?thesis unfolding corr_entry_columns V_def [symmetric] by auto
qed

subsection \<open>The matrix\<close>

lemma correlation_matrix_nth:
  "i < n \<Longrightarrow> j < n \<Longrightarrow> correlation_matrix n rows ! i ! j = corr_entry rows i j"
  by (simp add: correlation_matrix_def)

lemma correlation_matrix_ok: "matrix_ok n (correlation_matrix n rows)"
proof -
  have "length (correlation_matrix n rows) = n"
    by (simp add: correlation_matrix_def)
  moreover have "list_all (\<lambda>row. length row = n) (correlation_matrix n rows)"
    by (simp add: correlation_matrix_def list_all_iff)
  moreover have "list_all (\<lambda>i. list_all (\<lambda>j. correlation_matrix n rows ! i ! j
      = correlation_matrix n rows ! j ! i) [0..<n]) [0..<n]"
    using corr_entry_sym by (simp add: list_all_iff correlation_matrix_nth)
  moreover have "list_all (\<lambda>i. \<bar>correlation_matrix n rows ! i ! i - 1\<bar> \<le> 1 / 10 ^ 9) [0..<n]"
    by (simp add: list_all_iff correlation_matrix_nth corr_entry_diag)
  moreover have "list_all (\<lambda>i. list_all (\<lambda>j. - 1 - 1 / 10 ^ 9 \<le> correlation_matrix n rows ! i ! j
      \<and> correlation_matrix n rows ! i ! j \<le> 1 + 1 / 10 ^ 9) [0..<n]) [0..<n]"
  proof -
    have "- 1 - 1 / 10 ^ 9 \<le> corr_entry rows i j \<and> corr_entry rows i j \<le> 1 + 1 / 10 ^ 9" for i j
      using corr_entry_range [of rows i j] by (simp add: abs_le_iff)
    then show ?thesis by (simp add: list_all_iff correlation_matrix_nth)
  qed
  ultimately show ?thesis unfolding matrix_ok_def by blast
qed

lemma valid_panel_n_assets: "valid_panel n P \<Longrightarrow> P \<noteq> [] \<Longrightarrow> n_assets P = n"
  by (cases P) (simp_all add: valid_panel_def n_assets_def)

text \<open>
  C8. Every correlation matrix the engine produces, for every valid aligned panel and
  window size, is square and symmetric, has each diagonal value within \<open>1e-9\<close> of 1.0 and
  every value within \<open>[-1 - 1e-9, 1 + 1e-9]\<close>, the range the heatmap renders with
  \<open>zmin = -1\<close> and \<open>zmax = 1\<close>; and there is one matrix per window end.
\<close>

theorem rollingCorrelation_matrices_ok:
  assumes "valid_panel n P" and "2 \<le> w" and "w \<le> length P"
  shows "\<exists>ms. rollingCorrelation P w = Inr ms \<and> length ms = length P - w + 1
            \<and> list_all (\<lambda>tm. matrix_ok n (snd tm)) ms"
proof -
  have "P \<noteq> []" using assms(2,3) by auto
  then have n: "n_assets P = n" using assms(1) by (rule valid_panel_n_assets [rotated])
  have "rollingCorrelation P w =
      Inr (map (\<lambda>i. (fst (P ! i), correlation_matrix n (map snd (trailing w i P))))
             [w - 1..<length P])"
    using assms(2,3) by (simp add: rollingCorrelation_def n)
  moreover have "list_all (\<lambda>tm. matrix_ok n (snd tm))
      (map (\<lambda>i. (fst (P ! i), correlation_matrix n (map snd (trailing w i P)))) [w - 1..<length P])"
    by (simp add: list_all_iff correlation_matrix_ok)
  moreover have "length [w - 1..<length P] = length P - w + 1"
    using assms(2,3) by simp
  ultimately show ?thesis by simp
qed

theorem rollingCorrelation_matrices_ok_witness:
  "valid_panel 2 [(1, [1, 2]), (2, [2, 1]), (3, [3, 5])] \<and> (2::nat) \<le> 2
   \<and> 2 \<le> length [(1::nat, [1, 2::real]), (2, [2, 1]), (3, [3, 5])]
   \<and> (\<exists>ms. rollingCorrelation [(1, [1, 2]), (2, [2, 1]), (3, [3, 5])] 2 = Inr ms
          \<and> length ms = 2 \<and> list_all (\<lambda>tm. matrix_ok 2 (snd tm)) ms)"
proof -
  have v: "valid_panel 2 [(1, [1, 2]), (2, [2, 1]), (3, [3, 5])]"
    by (simp add: valid_panel_def)
  have l: "2 \<le> length [(1::nat, [1, 2::real]), (2, [2, 1]), (3, [3, 5])]" by simp
  from rollingCorrelation_matrices_ok [OF v order_refl l] v show ?thesis
    by (simp add: numeral_2_eq_2)
qed

end
